theory Spec2Isabelle
  imports Complex_Main
begin

section \<open>Fixed-step Runge-Kutta solvers of RungeKutta/RK4.py\<close>

text \<open>
  The module holds two classes, \<open>firstorder\<close> (dy/dt = f(t, y)) and \<open>secondorder\<close>
  (du/dt = f(v), dv/dt = g(v, u, t)). Each instance owns its slope function(s) and the
  lists of values recorded by \<open>solve\<close>.

  Numbers are modelled as \<^typ>\<open>real\<close>, and the arithmetic of the loop bodies is read
  as exact arithmetic. Rounding decides one thing that the claims speak of, the number
  of markers \<open>np.arange\<close> returns; for it the range generator is given a second time,
  with the binary64 rounding numpy applies. With \<open>from __future__ import division\<close>
  every \<open>/\<close> of the source is true division.
\<close>

subsection \<open>Errors\<close>

text \<open>
  An exception is a value of type \<open>error\<close>. \<open>ArangeError\<close> is what \<open>np.arange\<close> raises
  for a zero step (a \<open>ZeroDivisionError\<close> for Python numbers), \<open>SlopeError\<close> is an
  exception raised inside a user-supplied slope function. \<open>InvalidStepSize\<close> is the
  condition named by the specification; no statement of RK4.py raises it, and the
  definitions below never produce it by themselves.
\<close>

datatype error = InvalidStepSize | ArangeError | SlopeError string

subsection \<open>The range generator\<close>

text \<open>
  \<open>np.arange(start, stop, step)\<close> belongs to numpy, not to this module. Its contract:
  the array has \<open>ceil((stop - start) / step)\<close> entries (none when that is not
  positive), entry \<open>i\<close> is \<open>start + i * step\<close>, and a zero step is an error.
\<close>

definition arange :: "real \<Rightarrow> real \<Rightarrow> real \<Rightarrow> error + real list" where
  "arange start stop step =
     (if step = 0 then Inl ArangeError
      else Inr (map (\<lambda>i. start + real i * step) [0 ..< nat \<lceil>(stop - start) / step\<rceil>]))"

subsection \<open>Class firstorder\<close>

record firstorder =
  fo_ts :: "real list"
  fo_ys :: "real list"
  fo_f :: "real \<Rightarrow> real \<Rightarrow> error + real"

text \<open>\<open>__init__\<close> (lines 52-63).\<close>

definition firstorder_init :: "(real \<Rightarrow> real \<Rightarrow> error + real) \<Rightarrow> firstorder" where
  "firstorder_init function = \<lparr>fo_ts = [], fo_ys = [], fo_f = function\<rparr>"

text \<open>
  The body of the \<open>for\<close> loop of \<open>solve\<close> (lines 84-93), statement by statement. The
  instance is threaded through, and returned as it is at the moment an exception leaves
  the body. On success the new values of the locals \<open>ti\<close> and \<open>yi\<close> are returned.
\<close>

definition firstorder_body ::
  "firstorder \<Rightarrow> real \<Rightarrow> real \<Rightarrow> real \<Rightarrow> (error + real \<times> real) \<times> firstorder" where
  "firstorder_body s ti yi h =
     (case fo_f s ti yi of Inl e \<Rightarrow> (Inl e, s) | Inr K1 \<Rightarrow>
      (case fo_f s (ti + h / 2) (yi + K1 * h / 2) of Inl e \<Rightarrow> (Inl e, s) | Inr K2 \<Rightarrow>
       (case fo_f s (ti + h / 2) (yi + K2 * h / 2) of Inl e \<Rightarrow> (Inl e, s) | Inr K3 \<Rightarrow>
        (case fo_f s (ti + h) (yi + K3 * h) of Inl e \<Rightarrow> (Inl e, s) | Inr K4 \<Rightarrow>
          (let yi' = yi + (h / 6) * (K1 + 2 * K2 + 2 * K3 + K4);
               s1 = s\<lparr>fo_ys := fo_ys s @ [yi']\<rparr>;
               ti' = ti + h;
               s2 = s1\<lparr>fo_ts := fo_ts s1 @ [ti']\<rparr>
           in (Inr (ti', yi'), s2))))))"

text \<open>\<open>for _ in st:\<close> runs the body once per marker; the marker itself is not read.\<close>

fun firstorder_loop ::
  "firstorder \<Rightarrow> real \<Rightarrow> real \<Rightarrow> real \<Rightarrow> real list \<Rightarrow> (error + real) \<times> firstorder" where
  "firstorder_loop s ti yi h [] = (Inr yi, s)"
| "firstorder_loop s ti yi h (m # st) =
     (case firstorder_body s ti yi h of
        (Inl e, s') \<Rightarrow> (Inl e, s')
      | (Inr (ti', yi'), s') \<Rightarrow> firstorder_loop s' ti' yi' h st)"

text \<open>\<open>solve(ti, yi, done, h)\<close> (lines 65-94); the parameter \<open>done\<close> is written \<open>tdone\<close>.\<close>

definition firstorder_solve ::
  "firstorder \<Rightarrow> real \<Rightarrow> real \<Rightarrow> real \<Rightarrow> real \<Rightarrow> (error + real) \<times> firstorder" where
  "firstorder_solve s ti yi tdone h =
     (case arange ti tdone h of
        Inl e \<Rightarrow> (Inl e, s)
      | Inr st \<Rightarrow> firstorder_loop s ti yi h st)"

text \<open>\<open>graphvalues\<close> (lines 131-136) and \<open>emptyvalues\<close> (lines 138-144).\<close>

definition graphvalues :: "firstorder \<Rightarrow> real list \<times> real list" where
  "graphvalues s = (fo_ts s, fo_ys s)"

definition emptyvalues :: "firstorder \<Rightarrow> firstorder" where
  "emptyvalues s = s\<lparr>fo_ts := [], fo_ys := []\<rparr>"

subsection \<open>Class secondorder\<close>

record secondorder =
  so_f :: "real \<Rightarrow> error + real"
  so_g :: "real \<Rightarrow> real \<Rightarrow> real \<Rightarrow> error + real"
  so_ts :: "real list"
  so_us :: "real list"
  so_vs :: "real list"

text \<open>\<open>__init__\<close> (lines 183-197).\<close>

definition secondorder_init ::
  "(real \<Rightarrow> error + real) \<Rightarrow> (real \<Rightarrow> real \<Rightarrow> real \<Rightarrow> error + real) \<Rightarrow> secondorder" where
  "secondorder_init function1 function2 =
     \<lparr>so_f = function1, so_g = function2, so_ts = [], so_us = [], so_vs = []\<rparr>"

text \<open>The body of the \<open>for\<close> loop of \<open>solve\<close> (lines 220-239).\<close>

definition secondorder_body ::
  "secondorder \<Rightarrow> real \<Rightarrow> real \<Rightarrow> real \<Rightarrow> real \<Rightarrow> (error + real \<times> real \<times> real) \<times> secondorder" where
  "secondorder_body s ti ui vi h =
     (case so_f s vi of Inl e \<Rightarrow> (Inl e, s) | Inr K1 \<Rightarrow>
      (case so_g s vi ui ti of Inl e \<Rightarrow> (Inl e, s) | Inr m1 \<Rightarrow>
       (case so_f s (vi + m1 * h / 2) of Inl e \<Rightarrow> (Inl e, s) | Inr K2 \<Rightarrow>
        (case so_g s (vi + m1 * h / 2) (ui + K1 * h / 2) (ti + h / 2) of
           Inl e \<Rightarrow> (Inl e, s) | Inr m2 \<Rightarrow>
         (case so_f s (vi + m2 * h / 2) of Inl e \<Rightarrow> (Inl e, s) | Inr K3 \<Rightarrow>
          (case so_g s (vi + m2 * h / 2) (ui + K2 * h / 2) (ti + h / 2) of
             Inl e \<Rightarrow> (Inl e, s) | Inr m3 \<Rightarrow>
           (case so_f s (vi + m3 * h) of Inl e \<Rightarrow> (Inl e, s) | Inr K4 \<Rightarrow>
            (case so_g s (vi + m3 * h) (ui + K3 * h) (ti + h) of
               Inl e \<Rightarrow> (Inl e, s) | Inr m4 \<Rightarrow>
              (let ui' = ui + (h / 6) * (K1 + 2 * K2 + 2 * K3 + K4);
                   s1 = s\<lparr>so_us := so_us s @ [ui']\<rparr>;
                   vi' = vi + (h / 6) * (m1 + 2 * m2 + 2 * m3 + m4);
                   s2 = s1\<lparr>so_vs := so_vs s1 @ [vi']\<rparr>;
                   ti' = ti + h;
                   s3 = s2\<lparr>so_ts := so_ts s2 @ [ti']\<rparr>
               in (Inr (ti', ui', vi'), s3))))))))))"

fun secondorder_loop ::
  "secondorder \<Rightarrow> real \<Rightarrow> real \<Rightarrow> real \<Rightarrow> real \<Rightarrow> real list
     \<Rightarrow> (error + real \<times> real) \<times> secondorder" where
  "secondorder_loop s ti ui vi h [] = (Inr (ui, vi), s)"
| "secondorder_loop s ti ui vi h (m # st) =
     (case secondorder_body s ti ui vi h of
        (Inl e, s') \<Rightarrow> (Inl e, s')
      | (Inr (ti', ui', vi'), s') \<Rightarrow> secondorder_loop s' ti' ui' vi' h st)"

text \<open>\<open>solve(ti, ui, vi, done, h)\<close> (lines 199-240).\<close>

definition secondorder_solve ::
  "secondorder \<Rightarrow> real \<Rightarrow> real \<Rightarrow> real \<Rightarrow> real \<Rightarrow> real
     \<Rightarrow> (error + real \<times> real) \<times> secondorder" where
  "secondorder_solve s ti ui vi tdone h =
     (case arange ti tdone h of
        Inl e \<Rightarrow> (Inl e, s)
      | Inr st \<Rightarrow> secondorder_loop s ti ui vi h st)"

subsection \<open>The methods each class defines\<close>

text \<open>
  The names bound by \<open>def\<close> in each class body, in source order. A call of a name that
  is not among them (and is no instance attribute) raises \<open>AttributeError\<close>.
\<close>

definition firstorder_methods :: "string list" where
  "firstorder_methods = [''__init__'', ''solve'', ''graph'', ''graphvalues'', ''emptyvalues'']"

definition secondorder_methods :: "string list" where
  "secondorder_methods = [''__init__'', ''solve'', ''graph'']"

subsection \<open>The steps as the specification words them\<close>

text \<open>
  One step of the scalar method as the specification lists it: the four stage values are
  what the slope function returns at the four stage points, the new \<open>y\<close> adds their
  weighted sum, the new \<open>t\<close> is \<open>t + h\<close>. The relation holds between the pair
  \<open>(t, y)\<close> before a step and the pair after it.
\<close>

definition spec_scalar_step ::
  "(real \<Rightarrow> real \<Rightarrow> error + real) \<Rightarrow> real \<Rightarrow> real \<times> real \<Rightarrow> real \<times> real \<Rightarrow> bool" where
  "spec_scalar_step f h p q =
     (case p of (t, y) \<Rightarrow>
        \<exists>K1 K2 K3 K4.
          f t y = Inr K1 \<and>
          f (t + h / 2) (y + K1 * h / 2) = Inr K2 \<and>
          f (t + h / 2) (y + K2 * h / 2) = Inr K3 \<and>
          f (t + h) (y + K3 * h) = Inr K4 \<and>
          q = (t + h, y + (h / 6) * (K1 + 2 * K2 + 2 * K3 + K4)))"

text \<open>
  One step of the coupled method as the specification lists it, between the triples
  \<open>(t, u, v)\<close> before and after. The function \<open>f\<close> has one argument, the
  \<open>v\<close> of the stage.
\<close>

definition spec_coupled_step ::
  "(real \<Rightarrow> error + real) \<Rightarrow> (real \<Rightarrow> real \<Rightarrow> real \<Rightarrow> error + real) \<Rightarrow> real
     \<Rightarrow> real \<times> real \<times> real \<Rightarrow> real \<times> real \<times> real \<Rightarrow> bool" where
  "spec_coupled_step f g h p q =
     (case p of (t, u, v) \<Rightarrow>
        \<exists>K1 m1 K2 m2 K3 m3 K4 m4.
          f v = Inr K1 \<and> g v u t = Inr m1 \<and>
          f (v + m1 * h / 2) = Inr K2 \<and>
          g (v + m1 * h / 2) (u + K1 * h / 2) (t + h / 2) = Inr m2 \<and>
          f (v + m2 * h / 2) = Inr K3 \<and>
          g (v + m2 * h / 2) (u + K2 * h / 2) (t + h / 2) = Inr m3 \<and>
          f (v + m3 * h) = Inr K4 \<and>
          g (v + m3 * h) (u + K3 * h) (t + h) = Inr m4 \<and>
          q = (t + h,
               u + (h / 6) * (K1 + 2 * K2 + 2 * K3 + K4),
               v + (h / 6) * (m1 + 2 * m2 + 2 * m3 + m4)))"



subsection \<open>The range generator in binary64\<close>

text \<open>
  For Python floats \<open>np.arange\<close> computes its length in doubles: it subtracts
  \<open>stop - start\<close>, divides by \<open>step\<close>, and takes the ceiling of the result, each
  operation rounded to the nearest double, ties to even. \<open>fl64\<close> is that rounding of a
  real number in the range of the normal doubles (overflow and subnormal numbers are
  not modelled): \<open>binade x\<close> is the exponent \<open>e\<close> with \<open>2^e \<le> |x| < 2^(e+1)\<close>, and the
  doubles of that binade are the multiples of \<open>2^(e-52)\<close>.
\<close>

definition two_to :: "int \<Rightarrow> real" where
  "two_to e = (if 0 \<le> e then 2 ^ nat e else 1 / 2 ^ nat (- e))"

definition binade :: "real \<Rightarrow> int" where
  "binade x = \<lfloor>log 2 \<bar>x\<bar>\<rfloor>"

definition round_half_even :: "real \<Rightarrow> int" where
  "round_half_even x =
     (let n = \<lfloor>x\<rfloor>; d = x - of_int n
      in if d < 1 / 2 then n else if 1 / 2 < d then n + 1 else if even n then n else n + 1)"

definition fl64 :: "real \<Rightarrow> real" where
  "fl64 x =
     (if x = 0 then 0
      else of_int (round_half_even (x / two_to (binade x - 52))) * two_to (binade x - 52))"

text \<open>
  \<open>np.arange\<close> with the length computed as numpy computes it. The loops never read
  the markers, so their values are left as in \<open>arange\<close>.
\<close>

definition arange_double :: "real \<Rightarrow> real \<Rightarrow> real \<Rightarrow> error + real list" where
  "arange_double start stop step =
     (if step = 0 then Inl ArangeError
      else Inr (map (\<lambda>i. start + real i * step)
                  [0 ..< nat \<lceil>fl64 (fl64 (stop - start) / step)\<rceil>]))"



subsection \<open>The states an instance can be in\<close>

text \<open>
  An instance is made by its constructor and changed only by its methods: \<open>solve\<close>
  (whether it returns or raises) and, for \<open>firstorder\<close>, \<open>emptyvalues\<close>.
\<close>

inductive firstorder_reachable :: "firstorder \<Rightarrow> bool" where
  fo_constructed: "firstorder_reachable (firstorder_init function)"
| fo_solved: "firstorder_reachable s \<Longrightarrow> firstorder_reachable (snd (firstorder_solve s ti yi tdone h))"
| fo_emptied: "firstorder_reachable s \<Longrightarrow> firstorder_reachable (emptyvalues s)"

inductive secondorder_reachable :: "secondorder \<Rightarrow> bool" where
  so_constructed: "secondorder_reachable (secondorder_init function1 function2)"
| so_solved: "secondorder_reachable s \<Longrightarrow>
     secondorder_reachable (snd (secondorder_solve s ti ui vi tdone h))"

section \<open>Properties\<close>

subsection \<open>Range generation\<close>

lemma arange_zero_step: "arange start stop 0 = Inl ArangeError"
  by (simp add: arange_def)

lemma arange_empty:
  assumes "0 < h" and "tdone \<le> ti"
  shows "arange ti tdone h = Inr []"
proof -
  have "(tdone - ti) / h \<le> 0"
    using assms by (simp add: divide_nonpos_pos)
  then have "\<lceil>(tdone - ti) / h\<rceil> \<le> 0"
    by simp
  then show ?thesis
    using assms by (simp add: arange_def)
qed

lemma arange_nonzero:
  assumes "h \<noteq> 0"
  shows "arange ti tdone h = Inr (map (\<lambda>i. ti + real i * h) [0 ..< nat \<lceil>(tdone - ti) / h\<rceil>])"
  using assms by (simp add: arange_def)

lemma arange_Inr_length:
  assumes "arange ti tdone h = Inr st"
  shows "h \<noteq> 0" and "length st = nat \<lceil>(tdone - ti) / h\<rceil>"
  using assms by (auto simp: arange_def split: if_splits)

lemma arange_prefix:
  assumes "h \<noteq> 0" and "k \<le> nat \<lceil>(tdone - ti) / h\<rceil>" and "arange ti tdone h = Inr st"
  shows "arange ti (ti + real k * h) h = Inr (take k st)"
proof -
  have st: "st = map (\<lambda>i. ti + real i * h) [0 ..< nat \<lceil>(tdone - ti) / h\<rceil>]"
    using assms(1,3) by (simp add: arange_def)
  have "(ti + real k * h - ti) / h = real k"
    using assms(1) by simp
  then have "nat \<lceil>(ti + real k * h - ti) / h\<rceil> = k"
    by simp
  then have "arange ti (ti + real k * h) h = Inr (map (\<lambda>i. ti + real i * h) [0 ..< k])"
    using assms(1) by (simp add: arange_def)
  moreover have "take k st = map (\<lambda>i. ti + real i * h) [0 ..< k]"
    using assms(2) by (simp add: st take_map min_def)
  ultimately show ?thesis by simp
qed

lemma arange_markers:
  assumes "0 < h" and "arange ti tdone h = Inr st"
  shows "distinct st"
    and "set st = {m. \<exists>i::nat. m = ti + real i * h \<and> m < tdone}"
proof -
  let ?n = "nat \<lceil>(tdone - ti) / h\<rceil>"
  have st: "st = map (\<lambda>i. ti + real i * h) [0 ..< ?n]"
    using assms by (simp add: arange_def)
  have inj: "inj_on (\<lambda>i. ti + real i * h) (set [0 ..< ?n])"
    using assms(1) by (simp add: inj_on_def)
  show "distinct st"
    unfolding st using inj by (simp add: distinct_map)
  have iff: "i < ?n \<longleftrightarrow> ti + real i * h < tdone" for i :: nat
  proof -
    have "i < ?n \<longleftrightarrow> int i < \<lceil>(tdone - ti) / h\<rceil>"
      by (simp add: zless_nat_eq_int_zless)
    also have "\<dots> \<longleftrightarrow> real i < (tdone - ti) / h"
      by (simp add: less_ceiling_iff)
    also have "\<dots> \<longleftrightarrow> real i * h < tdone - ti"
      using assms(1) by (simp add: pos_less_divide_eq)
    also have "\<dots> \<longleftrightarrow> ti + real i * h < tdone"
      by (simp add: algebra_simps)
    finally show ?thesis .
  qed
  have "set st = (\<lambda>i. ti + real i * h) ` {i. i < ?n}"
    unfolding st by (simp add: atLeast0LessThan lessThan_def)
  also have "\<dots> = {m. \<exists>i::nat. m = ti + real i * h \<and> m < tdone}"
  proof (intro set_eqI iffI)
    fix m assume "m \<in> (\<lambda>i. ti + real i * h) ` {i. i < ?n}"
    then obtain i where "i < ?n" and "m = ti + real i * h" by blast
    then show "m \<in> {m. \<exists>i::nat. m = ti + real i * h \<and> m < tdone}"
      using iff [of i] by blast
  next
    fix m assume "m \<in> {m. \<exists>i::nat. m = ti + real i * h \<and> m < tdone}"
    then obtain i :: nat where "m = ti + real i * h" and "m < tdone" by blast
    then show "m \<in> (\<lambda>i. ti + real i * h) ` {i. i < ?n}"
      using iff [of i] by blast
  qed
  finally show "set st = {m. \<exists>i::nat. m = ti + real i * h \<and> m < tdone}" .
qed

subsection \<open>The loop of firstorder.solve\<close>

lemma firstorder_body_Inl:
  assumes "firstorder_body s ti yi h = (Inl e, s')"
  shows "s' = s" and "\<exists>a b. fo_f s a b = Inl e"
  using assms
  by (auto simp: firstorder_body_def Let_def split: sum.splits)

lemma firstorder_body_Inr:
  assumes "firstorder_body s ti yi h = (Inr (ti', yi'), s')"
  shows "spec_scalar_step (fo_f s) h (ti, yi) (ti', yi')"
    and "s' = s\<lparr>fo_ts := fo_ts s @ [ti'], fo_ys := fo_ys s @ [yi']\<rparr>"
    and "ti' = ti + h"
  using assms
  by (auto simp: firstorder_body_def spec_scalar_step_def Let_def split: sum.splits)

lemma firstorder_body_frame:
  assumes "fo_f s2 = fo_f s"
  shows "firstorder_body s2 ti yi h =
     (case firstorder_body s ti yi h of
        (Inl e, _) \<Rightarrow> (Inl e, s2)
      | (Inr p, _) \<Rightarrow> (Inr p, s2\<lparr>fo_ts := fo_ts s2 @ [fst p], fo_ys := fo_ys s2 @ [snd p]\<rparr>))"
  using assms
  by (auto simp: firstorder_body_def Let_def split: sum.splits)

lemma firstorder_loop_Inr:
  assumes "firstorder_loop s ti yi h st = (Inr r, s')"
  shows "\<exists>traj. length traj = length st
           \<and> s' = s\<lparr>fo_ts := fo_ts s @ map fst traj, fo_ys := fo_ys s @ map snd traj\<rparr>
           \<and> successively (spec_scalar_step (fo_f s) h) ((ti, yi) # traj)
           \<and> r = snd (last ((ti, yi) # traj))"
  using assms
proof (induction st arbitrary: s ti yi)
  case Nil
  then show ?case by simp
next
  case (Cons m st)
  from Cons.prems obtain ti' yi' s1 where
    body: "firstorder_body s ti yi h = (Inr (ti', yi'), s1)"
    and rest: "firstorder_loop s1 ti' yi' h st = (Inr r, s')"
    by (auto split: prod.splits sum.splits)
  note b = firstorder_body_Inr [OF body]
  from Cons.IH [OF rest] obtain traj where
    t: "length traj = length st"
       "s' = s1\<lparr>fo_ts := fo_ts s1 @ map fst traj, fo_ys := fo_ys s1 @ map snd traj\<rparr>"
       "successively (spec_scalar_step (fo_f s1) h) ((ti', yi') # traj)"
       "r = snd (last ((ti', yi') # traj))"
    by blast
  have f: "fo_f s1 = fo_f s" using b(2) by simp
  let ?traj = "(ti', yi') # traj"
  have "length ?traj = length (m # st)" using t(1) by simp
  moreover have "s' = s\<lparr>fo_ts := fo_ts s @ map fst ?traj, fo_ys := fo_ys s @ map snd ?traj\<rparr>"
    using t(2) b(2) by simp
  moreover have "successively (spec_scalar_step (fo_f s) h) ((ti, yi) # ?traj)"
    using t(3) b(1) f by simp
  moreover have "r = snd (last ((ti, yi) # ?traj))"
    using t(4) by simp
  ultimately show ?case by blast
qed

lemma firstorder_loop_frame:
  assumes "fo_f s2 = fo_f s"
  shows "\<exists>T Y. length T = length Y
          \<and> firstorder_loop s ti yi h st
              = (fst (firstorder_loop s ti yi h st), s\<lparr>fo_ts := fo_ts s @ T, fo_ys := fo_ys s @ Y\<rparr>)
          \<and> firstorder_loop s2 ti yi h st
              = (fst (firstorder_loop s ti yi h st), s2\<lparr>fo_ts := fo_ts s2 @ T, fo_ys := fo_ys s2 @ Y\<rparr>)"
  using assms
proof (induction st arbitrary: s s2 ti yi)
  case Nil
  have "length ([]::real list) = length ([]::real list)
      \<and> firstorder_loop s ti yi h [] = (fst (firstorder_loop s ti yi h []), s\<lparr>fo_ts := fo_ts s @ [], fo_ys := fo_ys s @ []\<rparr>)
      \<and> firstorder_loop s2 ti yi h [] = (fst (firstorder_loop s ti yi h []), s2\<lparr>fo_ts := fo_ts s2 @ [], fo_ys := fo_ys s2 @ []\<rparr>)"
    by simp
  then show ?case by blast
next
  case (Cons m st)
  show ?case
  proof (cases "firstorder_body s ti yi h")
    case (Pair res s1)
    show ?thesis
    proof (cases res)
      case (Inl e)
      with Pair have b: "firstorder_body s ti yi h = (Inl e, s1)" by simp
      have s1: "s1 = s" using firstorder_body_Inl(1) [OF b] .
      have b2: "firstorder_body s2 ti yi h = (Inl e, s2)"
        using firstorder_body_frame [OF Cons.prems, of ti yi h] b by simp
      have "length ([]::real list) = length ([]::real list)
          \<and> firstorder_loop s ti yi h (m # st) = (fst (firstorder_loop s ti yi h (m # st)), s\<lparr>fo_ts := fo_ts s @ [], fo_ys := fo_ys s @ []\<rparr>)
          \<and> firstorder_loop s2 ti yi h (m # st) = (fst (firstorder_loop s ti yi h (m # st)), s2\<lparr>fo_ts := fo_ts s2 @ [], fo_ys := fo_ys s2 @ []\<rparr>)"
        using b b2 s1 by simp
      then show ?thesis by blast
    next
      case (Inr p)
      obtain ti' yi' where p: "p = (ti', yi')" by (cases p)
      with Pair Inr have b: "firstorder_body s ti yi h = (Inr (ti', yi'), s1)" by simp
      note bs = firstorder_body_Inr [OF b]
      define s3 where "s3 = s2\<lparr>fo_ts := fo_ts s2 @ [ti'], fo_ys := fo_ys s2 @ [yi']\<rparr>"
      have b2: "firstorder_body s2 ti yi h = (Inr (ti', yi'), s3)"
        using firstorder_body_frame [OF Cons.prems, of ti yi h] b by (simp add: s3_def)
      have f: "fo_f s3 = fo_f s1" using bs(2) Cons.prems by (simp add: s3_def)
      from Cons.IH [OF f, of ti' yi'] obtain T Y where
        ty: "length T = length Y"
            "firstorder_loop s1 ti' yi' h st
               = (fst (firstorder_loop s1 ti' yi' h st), s1\<lparr>fo_ts := fo_ts s1 @ T, fo_ys := fo_ys s1 @ Y\<rparr>)"
            "firstorder_loop s3 ti' yi' h st
               = (fst (firstorder_loop s1 ti' yi' h st), s3\<lparr>fo_ts := fo_ts s3 @ T, fo_ys := fo_ys s3 @ Y\<rparr>)"
        by blast
      have l1: "firstorder_loop s ti yi h (m # st) = firstorder_loop s1 ti' yi' h st"
        using b by simp
      have l2: "firstorder_loop s2 ti yi h (m # st) = firstorder_loop s3 ti' yi' h st"
        using b2 by simp
      have "length (ti' # T) = length (yi' # Y)" using ty(1) by simp
      moreover have "firstorder_loop s ti yi h (m # st)
          = (fst (firstorder_loop s ti yi h (m # st)), s\<lparr>fo_ts := fo_ts s @ ti' # T, fo_ys := fo_ys s @ yi' # Y\<rparr>)"
        unfolding l1 using ty(2) bs(2) by simp
      moreover have "firstorder_loop s2 ti yi h (m # st)
          = (fst (firstorder_loop s ti yi h (m # st)), s2\<lparr>fo_ts := fo_ts s2 @ ti' # T, fo_ys := fo_ys s2 @ yi' # Y\<rparr>)"
        unfolding l1 l2 using ty(3) by (simp add: s3_def)
      ultimately show ?thesis by blast
    qed
  qed
qed

lemma firstorder_loop_Inl:
  assumes "firstorder_loop s ti yi h st = (Inl e, s')"
  shows "\<exists>k y. k < length st
           \<and> firstorder_loop s ti yi h (take k st) = (Inr y, s')
           \<and> firstorder_body s' (ti + real k * h) y h = (Inl e, s')"
  using assms
proof (induction st arbitrary: s ti yi)
  case Nil
  then show ?case by simp
next
  case (Cons m st)
  show ?case
  proof (cases "firstorder_body s ti yi h")
    case (Pair res s1)
    show ?thesis
    proof (cases res)
      case (Inl e1)
      with Pair have b: "firstorder_body s ti yi h = (Inl e1, s1)" by simp
      have s1: "s1 = s" using firstorder_body_Inl(1) [OF b] .
      from Cons.prems b have "e1 = e" "s' = s1" by simp_all
      then have "0 < length (m # st)
          \<and> firstorder_loop s ti yi h (take 0 (m # st)) = (Inr yi, s')
          \<and> firstorder_body s' (ti + real 0 * h) yi h = (Inl e, s')"
        using b s1 by simp
      then show ?thesis by blast
    next
      case (Inr p)
      obtain ti' yi' where p: "p = (ti', yi')" by (cases p)
      with Pair Inr have b: "firstorder_body s ti yi h = (Inr (ti', yi'), s1)" by simp
      have t': "ti' = ti + h" using firstorder_body_Inr(3) [OF b] .
      from Cons.prems b have rest: "firstorder_loop s1 ti' yi' h st = (Inl e, s')" by simp
      from Cons.IH [OF rest] obtain k y where
        k: "k < length st"
           "firstorder_loop s1 ti' yi' h (take k st) = (Inr y, s')"
           "firstorder_body s' (ti' + real k * h) y h = (Inl e, s')"
        by blast
      have eq: "ti' + real k * h = ti + real (Suc k) * h"
        using t' by (simp add: algebra_simps)
      have "Suc k < length (m # st)
          \<and> firstorder_loop s ti yi h (take (Suc k) (m # st)) = (Inr y, s')
          \<and> firstorder_body s' (ti + real (Suc k) * h) y h = (Inl e, s')"
        using k b eq by simp
      then show ?thesis by blast
    qed
  qed
qed

subsection \<open>The loop of secondorder.solve\<close>

lemma secondorder_body_Inl:
  assumes "secondorder_body s ti ui vi h = (Inl e, s')"
  shows "s' = s" and "(\<exists>a. so_f s a = Inl e) \<or> (\<exists>a b c. so_g s a b c = Inl e)"
  using assms
  by (auto simp: secondorder_body_def Let_def split: sum.splits)

lemma secondorder_body_Inr:
  assumes "secondorder_body s ti ui vi h = (Inr (ti', ui', vi'), s')"
  shows "spec_coupled_step (so_f s) (so_g s) h (ti, ui, vi) (ti', ui', vi')"
    and "s' = s\<lparr>so_ts := so_ts s @ [ti'], so_us := so_us s @ [ui'], so_vs := so_vs s @ [vi']\<rparr>"
    and "ti' = ti + h"
  using assms
  by (auto simp: secondorder_body_def spec_coupled_step_def Let_def split: sum.splits)

text \<open>
  At each stage \<open>f\<close> is called before \<open>g\<close>: once the earlier stages have returned,
  an exception of \<open>f\<close> ends the body whatever \<open>g\<close> would do at that stage.
\<close>

lemma secondorder_body_f_before_g:
  shows "so_f s vi = Inl e \<Longrightarrow> secondorder_body s ti ui vi h = (Inl e, s)"
    and "so_f s vi = Inr K1 \<Longrightarrow> so_g s vi ui ti = Inr m1 \<Longrightarrow>
         so_f s (vi + m1 * h / 2) = Inl e \<Longrightarrow>
         secondorder_body s ti ui vi h = (Inl e, s)"
    and "so_f s vi = Inr K1 \<Longrightarrow> so_g s vi ui ti = Inr m1 \<Longrightarrow>
         so_f s (vi + m1 * h / 2) = Inr K2 \<Longrightarrow>
         so_g s (vi + m1 * h / 2) (ui + K1 * h / 2) (ti + h / 2) = Inr m2 \<Longrightarrow>
         so_f s (vi + m2 * h / 2) = Inl e \<Longrightarrow>
         secondorder_body s ti ui vi h = (Inl e, s)"
    and "so_f s vi = Inr K1 \<Longrightarrow> so_g s vi ui ti = Inr m1 \<Longrightarrow>
         so_f s (vi + m1 * h / 2) = Inr K2 \<Longrightarrow>
         so_g s (vi + m1 * h / 2) (ui + K1 * h / 2) (ti + h / 2) = Inr m2 \<Longrightarrow>
         so_f s (vi + m2 * h / 2) = Inr K3 \<Longrightarrow>
         so_g s (vi + m2 * h / 2) (ui + K2 * h / 2) (ti + h / 2) = Inr m3 \<Longrightarrow>
         so_f s (vi + m3 * h) = Inl e \<Longrightarrow>
         secondorder_body s ti ui vi h = (Inl e, s)"
  by (simp_all add: secondorder_body_def)

lemma secondorder_body_frame:
  assumes "so_f s2 = so_f s" and "so_g s2 = so_g s"
  shows "secondorder_body s2 ti ui vi h =
     (case secondorder_body s ti ui vi h of
        (Inl e, _) \<Rightarrow> (Inl e, s2)
      | (Inr (t, u, v), _) \<Rightarrow>
          (Inr (t, u, v),
           s2\<lparr>so_ts := so_ts s2 @ [t], so_us := so_us s2 @ [u], so_vs := so_vs s2 @ [v]\<rparr>))"
  using assms
  by (auto simp: secondorder_body_def Let_def split: sum.splits)

lemma secondorder_loop_Inr:
  assumes "secondorder_loop s ti ui vi h st = (Inr r, s')"
  shows "\<exists>traj. length traj = length st
           \<and> s' = s\<lparr>so_ts := so_ts s @ map fst traj,
                    so_us := so_us s @ map (fst \<circ> snd) traj,
                    so_vs := so_vs s @ map (snd \<circ> snd) traj\<rparr>
           \<and> successively (spec_coupled_step (so_f s) (so_g s) h) ((ti, ui, vi) # traj)
           \<and> r = snd (last ((ti, ui, vi) # traj))"
  using assms
proof (induction st arbitrary: s ti ui vi)
  case Nil
  then show ?case by simp
next
  case (Cons m st)
  from Cons.prems obtain ti' ui' vi' s1 where
    body: "secondorder_body s ti ui vi h = (Inr (ti', ui', vi'), s1)"
    and rest: "secondorder_loop s1 ti' ui' vi' h st = (Inr r, s')"
    by (auto split: prod.splits sum.splits)
  note b = secondorder_body_Inr [OF body]
  have f: "so_f s1 = so_f s" "so_g s1 = so_g s" using b(2) by simp_all
  from Cons.IH [OF rest] obtain traj where
    t: "length traj = length st"
       "s' = s1\<lparr>so_ts := so_ts s1 @ map fst traj,
                 so_us := so_us s1 @ map (fst \<circ> snd) traj,
                 so_vs := so_vs s1 @ map (snd \<circ> snd) traj\<rparr>"
       "successively (spec_coupled_step (so_f s1) (so_g s1) h) ((ti', ui', vi') # traj)"
       "r = snd (last ((ti', ui', vi') # traj))"
    by blast
  let ?traj = "(ti', ui', vi') # traj"
  have "length ?traj = length (m # st)" using t(1) by simp
  moreover have "s' = s\<lparr>so_ts := so_ts s @ map fst ?traj,
                        so_us := so_us s @ map (fst \<circ> snd) ?traj,
                        so_vs := so_vs s @ map (snd \<circ> snd) ?traj\<rparr>"
    using t(2) b(2) by simp
  moreover have "successively (spec_coupled_step (so_f s) (so_g s) h) ((ti, ui, vi) # ?traj)"
    using t(3) b(1) f by simp
  moreover have "r = snd (last ((ti, ui, vi) # ?traj))"
    using t(4) by simp
  ultimately show ?case by blast
qed

lemma secondorder_loop_frame:
  assumes "so_f s2 = so_f s" and "so_g s2 = so_g s"
  shows "\<exists>T U V. length T = length U \<and> length T = length V
          \<and> secondorder_loop s ti ui vi h st
              = (fst (secondorder_loop s ti ui vi h st),
                 s\<lparr>so_ts := so_ts s @ T, so_us := so_us s @ U, so_vs := so_vs s @ V\<rparr>)
          \<and> secondorder_loop s2 ti ui vi h st
              = (fst (secondorder_loop s ti ui vi h st),
                 s2\<lparr>so_ts := so_ts s2 @ T, so_us := so_us s2 @ U, so_vs := so_vs s2 @ V\<rparr>)"
  using assms
proof (induction st arbitrary: s s2 ti ui vi)
  case Nil
  have "length ([]::real list) = length ([]::real list) \<and> length ([]::real list) = length ([]::real list)
      \<and> secondorder_loop s ti ui vi h []
          = (fst (secondorder_loop s ti ui vi h []),
             s\<lparr>so_ts := so_ts s @ [], so_us := so_us s @ [], so_vs := so_vs s @ []\<rparr>)
      \<and> secondorder_loop s2 ti ui vi h []
          = (fst (secondorder_loop s ti ui vi h []),
             s2\<lparr>so_ts := so_ts s2 @ [], so_us := so_us s2 @ [], so_vs := so_vs s2 @ []\<rparr>)"
    by simp
  then show ?case by blast
next
  case (Cons m st)
  show ?case
  proof (cases "secondorder_body s ti ui vi h")
    case (Pair res s1)
    show ?thesis
    proof (cases res)
      case (Inl e)
      with Pair have b: "secondorder_body s ti ui vi h = (Inl e, s1)" by simp
      have s1: "s1 = s" using secondorder_body_Inl(1) [OF b] .
      have b2: "secondorder_body s2 ti ui vi h = (Inl e, s2)"
        using secondorder_body_frame [OF Cons.prems, of ti ui vi h] b by simp
      have "length ([]::real list) = length ([]::real list) \<and> length ([]::real list) = length ([]::real list)
          \<and> secondorder_loop s ti ui vi h (m # st)
              = (fst (secondorder_loop s ti ui vi h (m # st)),
                 s\<lparr>so_ts := so_ts s @ [], so_us := so_us s @ [], so_vs := so_vs s @ []\<rparr>)
          \<and> secondorder_loop s2 ti ui vi h (m # st)
              = (fst (secondorder_loop s ti ui vi h (m # st)),
                 s2\<lparr>so_ts := so_ts s2 @ [], so_us := so_us s2 @ [], so_vs := so_vs s2 @ []\<rparr>)"
        using b b2 s1 by simp
      then show ?thesis by blast
    next
      case (Inr p)
      obtain ti' ui' vi' where p: "p = (ti', ui', vi')" by (cases p)
      with Pair Inr have b: "secondorder_body s ti ui vi h = (Inr (ti', ui', vi'), s1)" by simp
      note bs = secondorder_body_Inr [OF b]
      define s3 where
        "s3 = s2\<lparr>so_ts := so_ts s2 @ [ti'], so_us := so_us s2 @ [ui'], so_vs := so_vs s2 @ [vi']\<rparr>"
      have b2: "secondorder_body s2 ti ui vi h = (Inr (ti', ui', vi'), s3)"
        using secondorder_body_frame [OF Cons.prems, of ti ui vi h] b by (simp add: s3_def)
      have f: "so_f s3 = so_f s1" "so_g s3 = so_g s1"
        using bs(2) Cons.prems by (simp_all add: s3_def)
      from Cons.IH [OF f, of ti' ui' vi'] obtain T U V where
        ty: "length T = length U" "length T = length V"
            "secondorder_loop s1 ti' ui' vi' h st
               = (fst (secondorder_loop s1 ti' ui' vi' h st),
                  s1\<lparr>so_ts := so_ts s1 @ T, so_us := so_us s1 @ U, so_vs := so_vs s1 @ V\<rparr>)"
            "secondorder_loop s3 ti' ui' vi' h st
               = (fst (secondorder_loop s1 ti' ui' vi' h st),
                  s3\<lparr>so_ts := so_ts s3 @ T, so_us := so_us s3 @ U, so_vs := so_vs s3 @ V\<rparr>)"
        by blast
      have l1: "secondorder_loop s ti ui vi h (m # st) = secondorder_loop s1 ti' ui' vi' h st"
        using b by simp
      have l2: "secondorder_loop s2 ti ui vi h (m # st) = secondorder_loop s3 ti' ui' vi' h st"
        using b2 by simp
      have "length (ti' # T) = length (ui' # U)" "length (ti' # T) = length (vi' # V)"
        using ty(1,2) by simp_all
      moreover have "secondorder_loop s ti ui vi h (m # st)
          = (fst (secondorder_loop s ti ui vi h (m # st)),
             s\<lparr>so_ts := so_ts s @ ti' # T, so_us := so_us s @ ui' # U, so_vs := so_vs s @ vi' # V\<rparr>)"
        unfolding l1 using ty(3) bs(2) by simp
      moreover have "secondorder_loop s2 ti ui vi h (m # st)
          = (fst (secondorder_loop s ti ui vi h (m # st)),
             s2\<lparr>so_ts := so_ts s2 @ ti' # T, so_us := so_us s2 @ ui' # U, so_vs := so_vs s2 @ vi' # V\<rparr>)"
        unfolding l1 l2 using ty(4) by (simp add: s3_def)
      ultimately show ?thesis by blast
    qed
  qed
qed

lemma secondorder_loop_Inl:
  assumes "secondorder_loop s ti ui vi h st = (Inl e, s')"
  shows "\<exists>k u v. k < length st
           \<and> secondorder_loop s ti ui vi h (take k st) = (Inr (u, v), s')
           \<and> secondorder_body s' (ti + real k * h) u v h = (Inl e, s')"
  using assms
proof (induction st arbitrary: s ti ui vi)
  case Nil
  then show ?case by simp
next
  case (Cons m st)
  show ?case
  proof (cases "secondorder_body s ti ui vi h")
    case (Pair res s1)
    show ?thesis
    proof (cases res)
      case (Inl e1)
      with Pair have b: "secondorder_body s ti ui vi h = (Inl e1, s1)" by simp
      have s1: "s1 = s" using secondorder_body_Inl(1) [OF b] .
      from Cons.prems b have "e1 = e" "s' = s1" by simp_all
      then have "0 < length (m # st)
          \<and> secondorder_loop s ti ui vi h (take 0 (m # st)) = (Inr (ui, vi), s')
          \<and> secondorder_body s' (ti + real 0 * h) ui vi h = (Inl e, s')"
        using b s1 by simp
      then show ?thesis by blast
    next
      case (Inr p)
      obtain ti' ui' vi' where p: "p = (ti', ui', vi')" by (cases p)
      with Pair Inr have b: "secondorder_body s ti ui vi h = (Inr (ti', ui', vi'), s1)" by simp
      have t': "ti' = ti + h" using secondorder_body_Inr(3) [OF b] .
      from Cons.prems b have rest: "secondorder_loop s1 ti' ui' vi' h st = (Inl e, s')" by simp
      from Cons.IH [OF rest] obtain k u v where
        k: "k < length st"
           "secondorder_loop s1 ti' ui' vi' h (take k st) = (Inr (u, v), s')"
           "secondorder_body s' (ti' + real k * h) u v h = (Inl e, s')"
        by blast
      have eq: "ti' + real k * h = ti + real (Suc k) * h"
        using t' by (simp add: algebra_simps)
      have "Suc k < length (m # st)
          \<and> secondorder_loop s ti ui vi h (take (Suc k) (m # st)) = (Inr (u, v), s')
          \<and> secondorder_body s' (ti + real (Suc k) * h) u v h = (Inl e, s')"
        using k b eq by simp
      then show ?thesis by blast
    qed
  qed
qed

subsection \<open>Whole calls of solve\<close>

lemma firstorder_solve_frame:
  assumes "fo_f s2 = fo_f s"
  shows "\<exists>T Y. length T = length Y
          \<and> firstorder_solve s ti yi tdone h
              = (fst (firstorder_solve s ti yi tdone h), s\<lparr>fo_ts := fo_ts s @ T, fo_ys := fo_ys s @ Y\<rparr>)
          \<and> firstorder_solve s2 ti yi tdone h
              = (fst (firstorder_solve s ti yi tdone h), s2\<lparr>fo_ts := fo_ts s2 @ T, fo_ys := fo_ys s2 @ Y\<rparr>)"
proof (cases "arange ti tdone h")
  case (Inl e)
  then have "length ([]::real list) = length ([]::real list)
      \<and> firstorder_solve s ti yi tdone h
          = (fst (firstorder_solve s ti yi tdone h), s\<lparr>fo_ts := fo_ts s @ [], fo_ys := fo_ys s @ []\<rparr>)
      \<and> firstorder_solve s2 ti yi tdone h
          = (fst (firstorder_solve s ti yi tdone h), s2\<lparr>fo_ts := fo_ts s2 @ [], fo_ys := fo_ys s2 @ []\<rparr>)"
    by (simp add: firstorder_solve_def)
  then show ?thesis by blast
next
  case (Inr st)
  have "firstorder_solve s ti yi tdone h = firstorder_loop s ti yi h st"
    and "firstorder_solve s2 ti yi tdone h = firstorder_loop s2 ti yi h st"
    using Inr by (simp_all add: firstorder_solve_def)
  then show ?thesis
    using firstorder_loop_frame [OF assms, of ti yi h st] by presburger
qed

lemma secondorder_solve_frame:
  assumes "so_f s2 = so_f s" and "so_g s2 = so_g s"
  shows "\<exists>T U V. length T = length U \<and> length T = length V
          \<and> secondorder_solve s ti ui vi tdone h
              = (fst (secondorder_solve s ti ui vi tdone h),
                 s\<lparr>so_ts := so_ts s @ T, so_us := so_us s @ U, so_vs := so_vs s @ V\<rparr>)
          \<and> secondorder_solve s2 ti ui vi tdone h
              = (fst (secondorder_solve s ti ui vi tdone h),
                 s2\<lparr>so_ts := so_ts s2 @ T, so_us := so_us s2 @ U, so_vs := so_vs s2 @ V\<rparr>)"
proof (cases "arange ti tdone h")
  case (Inl e)
  then have "length ([]::real list) = length ([]::real list) \<and> length ([]::real list) = length ([]::real list)
      \<and> secondorder_solve s ti ui vi tdone h
          = (fst (secondorder_solve s ti ui vi tdone h),
             s\<lparr>so_ts := so_ts s @ [], so_us := so_us s @ [], so_vs := so_vs s @ []\<rparr>)
      \<and> secondorder_solve s2 ti ui vi tdone h
          = (fst (secondorder_solve s ti ui vi tdone h),
             s2\<lparr>so_ts := so_ts s2 @ [], so_us := so_us s2 @ [], so_vs := so_vs s2 @ []\<rparr>)"
    by (simp add: secondorder_solve_def)
  then show ?thesis by blast
next
  case (Inr st)
  have "secondorder_solve s ti ui vi tdone h = secondorder_loop s ti ui vi h st"
    and "secondorder_solve s2 ti ui vi tdone h = secondorder_loop s2 ti ui vi h st"
    using Inr by (simp_all add: secondorder_solve_def)
  then show ?thesis
    using secondorder_loop_frame [OF assms, of ti ui vi h st] by presburger
qed

lemma firstorder_solve_Inr:
  assumes "firstorder_solve s ti yi tdone h = (Inr r, s')"
  shows "\<exists>traj. length traj = nat \<lceil>(tdone - ti) / h\<rceil>
           \<and> s' = s\<lparr>fo_ts := fo_ts s @ map fst traj, fo_ys := fo_ys s @ map snd traj\<rparr>
           \<and> successively (spec_scalar_step (fo_f s) h) ((ti, yi) # traj)
           \<and> r = snd (last ((ti, yi) # traj))"
proof -
  from assms obtain st where
    st: "arange ti tdone h = Inr st" and loop: "firstorder_loop s ti yi h st = (Inr r, s')"
    by (auto simp: firstorder_solve_def split: sum.splits)
  show ?thesis
    using firstorder_loop_Inr [OF loop] arange_Inr_length(2) [OF st] by simp
qed

lemma secondorder_solve_Inr:
  assumes "secondorder_solve s ti ui vi tdone h = (Inr r, s')"
  shows "\<exists>traj. length traj = nat \<lceil>(tdone - ti) / h\<rceil>
           \<and> s' = s\<lparr>so_ts := so_ts s @ map fst traj,
                    so_us := so_us s @ map (fst \<circ> snd) traj,
                    so_vs := so_vs s @ map (snd \<circ> snd) traj\<rparr>
           \<and> successively (spec_coupled_step (so_f s) (so_g s) h) ((ti, ui, vi) # traj)
           \<and> r = snd (last ((ti, ui, vi) # traj))"
proof -
  from assms obtain st where
    st: "arange ti tdone h = Inr st" and loop: "secondorder_loop s ti ui vi h st = (Inr r, s')"
    by (auto simp: secondorder_solve_def split: sum.splits)
  show ?thesis
    using secondorder_loop_Inr [OF loop] arange_Inr_length(2) [OF st] by simp
qed

lemma firstorder_solve_Inl:
  assumes "h \<noteq> 0" and "firstorder_solve s ti yi tdone h = (Inl e, s')"
  shows "\<exists>k y. k < nat \<lceil>(tdone - ti) / h\<rceil>
           \<and> firstorder_solve s ti yi (ti + real k * h) h = (Inr y, s')
           \<and> firstorder_body s' (ti + real k * h) y h = (Inl e, s')
           \<and> (\<exists>a b. fo_f s a b = Inl e)"
proof -
  obtain st where st: "arange ti tdone h = Inr st"
    using arange_nonzero [OF assms(1)] by blast
  have len: "length st = nat \<lceil>(tdone - ti) / h\<rceil>"
    using arange_Inr_length(2) [OF st] .
  have loop: "firstorder_loop s ti yi h st = (Inl e, s')"
    using assms(2) st by (simp add: firstorder_solve_def)
  from firstorder_loop_Inl [OF loop] obtain k y where
    k: "k < length st"
       "firstorder_loop s ti yi h (take k st) = (Inr y, s')"
       "firstorder_body s' (ti + real k * h) y h = (Inl e, s')"
    by blast
  have pre: "arange ti (ti + real k * h) h = Inr (take k st)"
    using arange_prefix [OF assms(1) _ st, of k] k(1) len by simp
  have call: "firstorder_solve s ti yi (ti + real k * h) h = (Inr y, s')"
    using pre k(2) by (simp add: firstorder_solve_def)
  from firstorder_solve_Inr [OF call] have f: "fo_f s' = fo_f s"
    by auto
  from firstorder_body_Inl(2) [OF k(3)] f have "\<exists>a b. fo_f s a b = Inl e"
    by simp
  with k(1,3) len call show ?thesis by auto
qed

lemma secondorder_solve_Inl:
  assumes "h \<noteq> 0" and "secondorder_solve s ti ui vi tdone h = (Inl e, s')"
  shows "\<exists>k u v. k < nat \<lceil>(tdone - ti) / h\<rceil>
           \<and> secondorder_solve s ti ui vi (ti + real k * h) h = (Inr (u, v), s')
           \<and> secondorder_body s' (ti + real k * h) u v h = (Inl e, s')
           \<and> ((\<exists>a. so_f s a = Inl e) \<or> (\<exists>a b c. so_g s a b c = Inl e))"
proof -
  obtain st where st: "arange ti tdone h = Inr st"
    using arange_nonzero [OF assms(1)] by blast
  have len: "length st = nat \<lceil>(tdone - ti) / h\<rceil>"
    using arange_Inr_length(2) [OF st] .
  have loop: "secondorder_loop s ti ui vi h st = (Inl e, s')"
    using assms(2) st by (simp add: secondorder_solve_def)
  from secondorder_loop_Inl [OF loop] obtain k u v where
    k: "k < length st"
       "secondorder_loop s ti ui vi h (take k st) = (Inr (u, v), s')"
       "secondorder_body s' (ti + real k * h) u v h = (Inl e, s')"
    by blast
  have pre: "arange ti (ti + real k * h) h = Inr (take k st)"
    using arange_prefix [OF assms(1) _ st, of k] k(1) len by simp
  have call: "secondorder_solve s ti ui vi (ti + real k * h) h = (Inr (u, v), s')"
    using pre k(2) by (simp add: secondorder_solve_def)
  from secondorder_solve_Inr [OF call] have f: "so_f s' = so_f s" "so_g s' = so_g s"
    by auto
  from secondorder_body_Inl(2) [OF k(3)] f
  have "(\<exists>a. so_f s a = Inl e) \<or> (\<exists>a b c. so_g s a b c = Inl e)"
    by simp
  with k(1,3) len call show ?thesis by auto
qed

subsection \<open>Steps that go through and steps that raise\<close>







subsection \<open>Calls in which no slope function raises\<close>





subsection \<open>Rounding to binary64\<close>

lemma two_to_powr: "two_to e = 2 powr (of_int e)"
  by (simp add: two_to_def powr_real_of_int divide_inverse)

lemma two_to_pos: "0 < two_to e"
  by (simp add: two_to_def)

lemma binade_eq:
  assumes "two_to e \<le> \<bar>x\<bar>" and "\<bar>x\<bar> < two_to (e + 1)"
  shows "binade x = e"
proof -
  have pos: "0 < \<bar>x\<bar>" using assms(1) two_to_pos [of e] by linarith
  have "2 powr (of_int e) \<le> \<bar>x\<bar> \<and> \<bar>x\<bar> < 2 powr (of_int e + 1)"
    using assms by (simp add: two_to_powr)
  then show ?thesis
    unfolding binade_def using floor_log_eq_powr_iff [OF pos, of 2 e] by simp
qed

lemma fl64_in_binade:
  assumes "two_to e \<le> \<bar>x\<bar>" and "\<bar>x\<bar> < two_to (e + 1)"
  shows "fl64 x = of_int (round_half_even (x / two_to (e - 52))) * two_to (e - 52)"
proof -
  have "x \<noteq> 0" using assms(1) two_to_pos [of e] by auto
  then show ?thesis
    by (simp add: fl64_def binade_eq [OF assms])
qed

lemma fl64_eleven_tenths: "fl64 (2476979795053773 / 2 ^ 51 - 0) = 2476979795053773 / 2 ^ 51"
proof -
  have "fl64 (2476979795053773 / 2 ^ 51)
      = of_int (round_half_even ((2476979795053773 / 2 ^ 51) / two_to (0 - 52))) * two_to (0 - 52)"
    by (rule fl64_in_binade) (simp_all add: two_to_def)
  also have "\<dots> = 2476979795053773 / 2 ^ 51"
    by (simp add: two_to_def round_half_even_def Let_def)
  finally show ?thesis by simp
qed

lemma fl64_quotient_eleven:
  "fl64 ((2476979795053773 / 2 ^ 51) / (3602879701896397 / 2 ^ 55)) = 11"
proof -
  let ?q = "((2476979795053773 / 2 ^ 51) / (3602879701896397 / 2 ^ 55)) :: real"
  have "fl64 ?q = of_int (round_half_even (?q / two_to (3 - 52))) * two_to (3 - 52)"
    by (rule fl64_in_binade) (simp_all add: two_to_def)
  also have "\<dots> = 11"
    by (simp add: two_to_def round_half_even_def Let_def)
  finally show ?thesis .
qed

lemma arange_double_eleven:
  "arange_double 0 (2476979795053773 / 2 ^ 51) (3602879701896397 / 2 ^ 55)
     = Inr (map (\<lambda>i. 0 + real i * (3602879701896397 / 2 ^ 55)) [0 ..< 11])"
  unfolding arange_double_def fl64_eleven_tenths fl64_quotient_eleven
  by simp

lemma double_literals:
  shows "fl64 (1 / 10) = 3602879701896397 / 2 ^ 55"
    and "fl64 (11 / 10) = 2476979795053773 / 2 ^ 51"
    and "fl64 (13 / 10) = 5854679515581645 / 2 ^ 52"
proof -
  have "fl64 (1 / 10) = of_int (round_half_even ((1 / 10) / two_to (- 4 - 52))) * two_to (- 4 - 52)"
    by (rule fl64_in_binade) (simp_all add: two_to_def)
  then show "fl64 (1 / 10) = 3602879701896397 / 2 ^ 55"
    by (simp add: two_to_def round_half_even_def Let_def)
  have "fl64 (11 / 10) = of_int (round_half_even ((11 / 10) / two_to (0 - 52))) * two_to (0 - 52)"
    by (rule fl64_in_binade) (simp_all add: two_to_def)
  then show "fl64 (11 / 10) = 2476979795053773 / 2 ^ 51"
    by (simp add: two_to_def round_half_even_def Let_def)
  have "fl64 (13 / 10) = of_int (round_half_even ((13 / 10) / two_to (0 - 52))) * two_to (0 - 52)"
    by (rule fl64_in_binade) (simp_all add: two_to_def)
  then show "fl64 (13 / 10) = 5854679515581645 / 2 ^ 52"
    by (simp add: two_to_def round_half_even_def Let_def)
qed

lemma fl64_three_tenths_gap:
  "fl64 (5854679515581645 / 2 ^ 52 - 1) = 1351079888211149 / 2 ^ 52"
proof -
  have eq: "(5854679515581645 / 2 ^ 52 - 1 :: real) = 1351079888211149 / 2 ^ 52" by simp
  have "fl64 (1351079888211149 / 2 ^ 52)
      = of_int (round_half_even ((1351079888211149 / 2 ^ 52) / two_to (- 2 - 52))) * two_to (- 2 - 52)"
    by (rule fl64_in_binade) (simp_all add: two_to_def)
  also have "\<dots> = 1351079888211149 / 2 ^ 52"
    by (simp add: two_to_def round_half_even_def Let_def)
  finally show ?thesis unfolding eq .
qed

lemma fl64_quotient_three:
  "fl64 ((1351079888211149 / 2 ^ 52) / (3602879701896397 / 2 ^ 55)) = 6755399441055745 / 2 ^ 51"
proof -
  let ?q = "((1351079888211149 / 2 ^ 52) / (3602879701896397 / 2 ^ 55)) :: real"
  have "fl64 ?q = of_int (round_half_even (?q / two_to (1 - 52))) * two_to (1 - 52)"
    by (rule fl64_in_binade) (simp_all add: two_to_def)
  also have "\<dots> = 6755399441055745 / 2 ^ 51"
    by (simp add: two_to_def round_half_even_def Let_def)
  finally show ?thesis .
qed

lemma arange_double_four:
  "arange_double 1 (5854679515581645 / 2 ^ 52) (3602879701896397 / 2 ^ 55)
     = Inr (map (\<lambda>i. 1 + real i * (3602879701896397 / 2 ^ 55)) [0 ..< 4])"
  unfolding arange_double_def fl64_three_tenths_gap fl64_quotient_three
  by simp



subsection \<open>The number of steps\<close>





subsection \<open>Lengths of the histories\<close>

lemma firstorder_reachable_lengths:
  assumes "firstorder_reachable s"
  shows "length (fo_ts s) = length (fo_ys s)"
  using assms
proof (induction rule: firstorder_reachable.induct)
  case (fo_constructed f0)
  show ?case by (simp add: firstorder_init_def)
next
  case (fo_solved s ti yi tdone h)
  from firstorder_solve_frame [of s s ti yi tdone h] obtain T Y where
    "length T = length Y"
    "firstorder_solve s ti yi tdone h
       = (fst (firstorder_solve s ti yi tdone h), s\<lparr>fo_ts := fo_ts s @ T, fo_ys := fo_ys s @ Y\<rparr>)"
    by blast
  then have "length T = length Y"
    and "snd (firstorder_solve s ti yi tdone h) = s\<lparr>fo_ts := fo_ts s @ T, fo_ys := fo_ys s @ Y\<rparr>"
    by (simp, metis snd_conv)
  then show ?case using fo_solved.IH by simp
next
  case (fo_emptied s)
  show ?case by (simp add: emptyvalues_def)
qed

lemma secondorder_reachable_lengths:
  assumes "secondorder_reachable s"
  shows "length (so_ts s) = length (so_us s) \<and> length (so_ts s) = length (so_vs s)"
  using assms
proof (induction rule: secondorder_reachable.induct)
  case (so_constructed f0 g0)
  show ?case by (simp add: secondorder_init_def)
next
  case (so_solved s ti ui vi tdone h)
  from secondorder_solve_frame [of s s ti ui vi tdone h] obtain T U V where
    "length T = length U" "length T = length V"
    "secondorder_solve s ti ui vi tdone h
       = (fst (secondorder_solve s ti ui vi tdone h),
          s\<lparr>so_ts := so_ts s @ T, so_us := so_us s @ U, so_vs := so_vs s @ V\<rparr>)"
    by blast
  then have "length T = length U" and "length T = length V"
    and "snd (secondorder_solve s ti ui vi tdone h)
           = s\<lparr>so_ts := so_ts s @ T, so_us := so_us s @ U, so_vs := so_vs s @ V\<rparr>"
    by (simp, simp, metis snd_conv)
  then show ?case using so_solved.IH by simp
qed

subsection \<open>Worked calls\<close>

lemma scalar_example:
  "firstorder_solve (firstorder_init (\<lambda>t y. Inr (2 * t - 3 * y + 1))) 1 5 2 (1 / 2)
     = (Inr (14419 / 8192),
        \<lparr>fo_ts = [3 / 2, 2], fo_ys = [145 / 64, 14419 / 8192],
         fo_f = \<lambda>t y. Inr (2 * t - 3 * y + 1)\<rparr>)"
  by (simp add: firstorder_solve_def arange_def firstorder_init_def firstorder_body_def
      Let_def upt_conv_Cons)

lemma coupled_example:
  "secondorder_solve (secondorder_init (\<lambda>v. Inr v) (\<lambda>v u t. Inr (u + t))) 0 1 0 2 1
     = (Inr (3073 / 576, 3649 / 576),
        \<lparr>so_f = \<lambda>v. Inr v, so_g = \<lambda>v u t. Inr (u + t), so_ts = [1, 2],
         so_us = [41 / 24, 3073 / 576], so_vs = [41 / 24, 3649 / 576]\<rparr>)"
  by (simp add: secondorder_solve_def arange_def secondorder_init_def secondorder_body_def
      Let_def upt_conv_Cons)

section \<open>The claims\<close>





text \<open>
  C3, as the code has it. A zero step makes \<open>np.arange\<close> raise before the loop is
  entered: both \<open>solve\<close> methods end with that error, whatever the other arguments, no
  slope function is called and the instance is unchanged. The error is the range
  generator's own; \<open>InvalidStepSize\<close> is not raised.
\<close>

theorem solve_zero_step_arange_error:
  "firstorder_solve s ti yi tdone 0 = (Inl ArangeError, s)
   \<and> secondorder_solve q ti ui vi tdone 0 = (Inl ArangeError, q)"
  by (simp add: firstorder_solve_def secondorder_solve_def arange_zero_step)

theorem solve_zero_step_not_invalid_step_size:
  "fst (firstorder_solve (firstorder_init (\<lambda>t y. Inr (2 * t - 3 * y + 1))) 1 5 2 0)
     = Inl ArangeError
   \<and> fst (firstorder_solve (firstorder_init (\<lambda>t y. Inr (2 * t - 3 * y + 1))) 1 5 2 0)
     \<noteq> Inl InvalidStepSize
   \<and> fst (secondorder_solve (secondorder_init (\<lambda>v. Inr v) (\<lambda>v u t. Inr (u + t))) 0 1 0 2 0)
     = Inl ArangeError
   \<and> fst (secondorder_solve (secondorder_init (\<lambda>v. Inr v) (\<lambda>v u t. Inr (u + t))) 0 1 0 2 0)
     \<noteq> Inl InvalidStepSize"
  by (simp add: firstorder_solve_def secondorder_solve_def arange_zero_step)

text \<open>
  C4. \<open>firstorder.emptyvalues\<close> empties both histories, keeps the slope function and is
  idempotent. Class \<open>secondorder\<close> defines no such method: its histories can only grow.
\<close>

theorem emptyvalues_firstorder_only:
  "''emptyvalues'' \<in> set firstorder_methods
   \<and> ''emptyvalues'' \<notin> set secondorder_methods
   \<and> fo_ts (emptyvalues s) = [] \<and> fo_ys (emptyvalues s) = []
   \<and> fo_f (emptyvalues s) = fo_f s
   \<and> emptyvalues (emptyvalues s) = emptyvalues s"
  by (simp add: firstorder_methods_def secondorder_methods_def emptyvalues_def)




text \<open>
  C6. With a positive step and \<open>t0 \<ge> t_end\<close> no step runs: \<open>solve\<close> returns the initial
  value(s) as given and the instance, with all of its history, is the one it was.
\<close>

theorem solve_zero_steps:
  assumes "0 < h" and "tdone \<le> ti"
  shows "firstorder_solve s ti yi tdone h = (Inr yi, s)
       \<and> secondorder_solve q ti ui vi tdone h = (Inr (ui, vi), q)"
  using arange_empty [OF assms]
  by (simp add: firstorder_solve_def secondorder_solve_def)

theorem solve_zero_steps_witness:
  "(0::real) < 1 / 2 \<and> (1::real) \<le> 3
   \<and> firstorder_solve (firstorder_init (\<lambda>t y. Inr (2 * t - 3 * y + 1))) 3 5 1 (1 / 2)
       = (Inr 5, firstorder_init (\<lambda>t y. Inr (2 * t - 3 * y + 1)))
   \<and> secondorder_solve (secondorder_init (\<lambda>v. Inr v) (\<lambda>v u t. Inr (4 * v + u - t))) 3 1 (- 1) 1 (1 / 2)
       = (Inr (1, - 1), secondorder_init (\<lambda>v. Inr v) (\<lambda>v u t. Inr (4 * v + u - t)))"
proof -
  have pos: "(0::real) < 1 / 2" by simp
  have le: "(1::real) \<le> 3" by simp
  show ?thesis
    using pos le solve_zero_steps [OF pos le] by simp
qed




text \<open>
  C9. \<open>firstorder.graphvalues\<close> returns the two histories, both empty on a new instance.
  Class \<open>secondorder\<close> defines no accessor. (That the histories of an instance have equal
  lengths throughout its life, for slope functions that return numbers or raise, is
  \<open>firstorder_reachable_lengths\<close> and \<open>secondorder_reachable_lengths\<close>.)
\<close>

theorem graphvalues_firstorder_only:
  "''graphvalues'' \<in> set firstorder_methods
   \<and> ''graphvalues'' \<notin> set secondorder_methods
   \<and> graphvalues s = (fo_ts s, fo_ys s)
   \<and> graphvalues (firstorder_init function) = ([], [])"
  by (simp add: firstorder_methods_def secondorder_methods_def graphvalues_def
      firstorder_init_def)

text \<open>
  C10. A call of \<open>solve\<close> that returns after at least one step (its value history has
  grown) returns the last entry of the value history: of \<open>ys\<close> for \<open>firstorder\<close>, of
  \<open>us\<close> and \<open>vs\<close> for the pair of \<open>secondorder\<close>.
\<close>

theorem solve_returns_last_appended:
  "(firstorder_solve s ti yi tdone h = (Inr r, s') \<and> length (fo_ys s) < length (fo_ys s')
      \<longrightarrow> r = last (fo_ys s'))
   \<and> (secondorder_solve q tj ui vi tend k = (Inr (ru, rv), q')
        \<and> length (so_us q) < length (so_us q')
      \<longrightarrow> ru = last (so_us q') \<and> rv = last (so_vs q'))"
proof (intro conjI impI)
  assume a: "firstorder_solve s ti yi tdone h = (Inr r, s') \<and> length (fo_ys s) < length (fo_ys s')"
  from firstorder_solve_Inr [of s ti yi tdone h r s'] a obtain traj where
    t: "s' = s\<lparr>fo_ts := fo_ts s @ map fst traj, fo_ys := fo_ys s @ map snd traj\<rparr>"
       "r = snd (last ((ti, yi) # traj))"
    by blast
  have ne: "traj \<noteq> []" using a t(1) by auto
  then have "r = snd (last traj)" using t(2) by simp
  also have "\<dots> = last (map snd traj)" using ne by (simp add: last_map)
  also have "\<dots> = last (fo_ys s')" using ne t(1) by simp
  finally show "r = last (fo_ys s')" .
next
  assume a: "secondorder_solve q tj ui vi tend k = (Inr (ru, rv), q')
     \<and> length (so_us q) < length (so_us q')"
  from secondorder_solve_Inr [of q tj ui vi tend k "(ru, rv)" q'] a obtain traj where
    t: "q' = q\<lparr>so_ts := so_ts q @ map fst traj,
               so_us := so_us q @ map (fst \<circ> snd) traj,
               so_vs := so_vs q @ map (snd \<circ> snd) traj\<rparr>"
       "(ru, rv) = snd (last ((tj, ui, vi) # traj))"
    by blast
  have ne: "traj \<noteq> []" using a t(1) by auto
  then have l: "snd (last traj) = (ru, rv)" using t(2) by simp
  have "last (so_us q') = last (map (fst \<circ> snd) traj)" using ne t(1) by simp
  also have "\<dots> = ru" using ne l by (simp add: last_map)
  finally show "ru = last (so_us q')" by simp
  have "last (so_vs q') = last (map (snd \<circ> snd) traj)" using ne t(1) by simp
  also have "\<dots> = rv" using ne l by (simp add: last_map)
  finally show "rv = last (so_vs q')" by simp
qed

theorem solve_returns_last_appended_witness:
  "firstorder_solve (firstorder_init (\<lambda>t y. Inr (2 * t - 3 * y + 1))) 1 5 2 (1 / 2)
     = (Inr (14419 / 8192),
        \<lparr>fo_ts = [3 / 2, 2], fo_ys = [145 / 64, 14419 / 8192],
         fo_f = \<lambda>t y. Inr (2 * t - 3 * y + 1)\<rparr>)
   \<and> length (fo_ys (firstorder_init (\<lambda>t y. Inr (2 * t - 3 * y + 1)))) < 2
   \<and> (14419 / 8192 :: real) = last [145 / 64, 14419 / 8192]
   \<and> secondorder_solve (secondorder_init (\<lambda>v. Inr v) (\<lambda>v u t. Inr (u + t))) 0 1 0 2 1
     = (Inr (3073 / 576, 3649 / 576),
        \<lparr>so_f = \<lambda>v. Inr v, so_g = \<lambda>v u t. Inr (u + t), so_ts = [1, 2],
         so_us = [41 / 24, 3073 / 576], so_vs = [41 / 24, 3649 / 576]\<rparr>)
   \<and> length (so_us (secondorder_init (\<lambda>v. Inr v) (\<lambda>v u t. Inr (u + t)))) < 2
   \<and> (3073 / 576 :: real) = last [41 / 24, 3073 / 576]
   \<and> (3649 / 576 :: real) = last [41 / 24, 3649 / 576]"
  using solve_returns_last_appended
    [of "firstorder_init (\<lambda>t y. Inr (2 * t - 3 * y + 1))" 1 5 2 "1 / 2" "14419 / 8192"
        "\<lparr>fo_ts = [3 / 2, 2], fo_ys = [145 / 64, 14419 / 8192],
          fo_f = \<lambda>t y. Inr (2 * t - 3 * y + 1)\<rparr>"
        "secondorder_init (\<lambda>v. Inr v) (\<lambda>v u t. Inr (u + t))" 0 1 0 2 1
        "3073 / 576" "3649 / 576"
        "\<lparr>so_f = \<lambda>v. Inr v, so_g = \<lambda>v u t. Inr (u + t), so_ts = [1, 2],
          so_us = [41 / 24, 3073 / 576], so_vs = [41 / 24, 3649 / 576]\<rparr>"]
    scalar_example coupled_example
  by (simp add: firstorder_init_def secondorder_init_def)

end
